theory Spec2Isabelle
  imports
    Main
    "HOL-Library.Char_ord"
    "HOL-Library.List_Lexorder"
    "HOL-Library.Product_Lexorder"
    "HOL-Library.Multiset"
    "HOL-Library.AList"
begin

section \<open>Values of the dynamic language\<close>

text \<open>
  The policy engine of \<^verbatim>\<open>aspasia-pilot/main.py\<close> works on untyped data: a transaction
  and a rule specification are whatever \<^verbatim>\<open>yaml.safe_load\<close> or the JSON layer hands over.
  A value is \<^verbatim>\<open>None\<close>, a boolean, an integer, a string, a list or a dictionary.
  Dictionaries are association lists without duplicate keys, and their keys are strings
  (\<^verbatim>\<open>Dict[str, Any]\<close>). Floating point numbers are left out of the value model, and so
  is the interpreter's recursion limit.
\<close>

datatype val =
    VNone
  | VBool bool
  | VInt int
  | VStr string
  | VList "val list"
  | VDict "(string \<times> val) list"

text \<open>
  Every exception the engine can raise is a value. \<open>UnknownOperator\<close> is the
  \<^verbatim>\<open>ValueError(f"Unknown operator: {self.op!r}")\<close> of \<^verbatim>\<open>Condition.eval\<close>;
  \<open>InvalidLiteral\<close> is the \<^verbatim>\<open>ValueError\<close> of \<^verbatim>\<open>int()\<close> on a string that it does
  not accept; \<open>EmptySequence\<close> is the \<^verbatim>\<open>ValueError\<close> of \<^verbatim>\<open>max()\<close> on an empty list;
  \<open>YAMLError\<close> is what the parser raises on malformed text.
\<close>

datatype error =
    UnknownOperator val
  | TypeError
  | KeyError val
  | AttributeError
  | InvalidLiteral string
  | EmptySequence
  | YAMLError

text \<open>A measure of values that also counts the characters of strings and keys.\<close>

fun weight :: "val \<Rightarrow> nat"
  and weight_list :: "val list \<Rightarrow> nat"
  and weight_items :: "(string \<times> val) list \<Rightarrow> nat" where
  "weight VNone = 1"
| "weight (VBool b) = 1"
| "weight (VInt i) = 1"
| "weight (VStr s) = Suc (length s)"
| "weight (VList xs) = Suc (weight_list xs)"
| "weight (VDict kvs) = Suc (weight_items kvs)"
| "weight_list [] = 0"
| "weight_list (x # xs) = weight x + weight_list xs"
| "weight_items [] = 0"
| "weight_items (kv # kvs) = Suc (length (fst kv) + weight (snd kv)) + weight_items kvs"

subsection \<open>Truth value, equality, ordering, membership\<close>

text \<open>\<^verbatim>\<open>bool(v)\<close>, as \<^verbatim>\<open>x or y\<close> tests it.\<close>

fun truthy :: "val \<Rightarrow> bool" where
  "truthy VNone = False"
| "truthy (VBool b) = b"
| "truthy (VInt i) = (i \<noteq> 0)"
| "truthy (VStr s) = (s \<noteq> [])"
| "truthy (VList xs) = (xs \<noteq> [])"
| "truthy (VDict kvs) = (kvs \<noteq> [])"

definition int_of_bool :: "bool \<Rightarrow> int" where
  "int_of_bool b = (if b then 1 else 0)"

text \<open>
  \<^verbatim>\<open>v == w\<close>: never raises. A boolean is the integer 0 or 1; lists are compared
  element by element; two dictionaries are equal when they have as many keys and every
  key of the first has an equal value in the second.
\<close>

fun py_eq :: "val \<Rightarrow> val \<Rightarrow> bool"
  and py_eq_list :: "val list \<Rightarrow> val list \<Rightarrow> bool"
  and py_eq_items :: "(string \<times> val) list \<Rightarrow> (string \<times> val) list \<Rightarrow> bool" where
  "py_eq VNone w = (w = VNone)"
| "py_eq (VBool a) w =
     (case w of VBool b \<Rightarrow> a = b | VInt j \<Rightarrow> int_of_bool a = j | _ \<Rightarrow> False)"
| "py_eq (VInt i) w =
     (case w of VBool b \<Rightarrow> i = int_of_bool b | VInt j \<Rightarrow> i = j | _ \<Rightarrow> False)"
| "py_eq (VStr s) w = (w = VStr s)"
| "py_eq (VList xs) w = (case w of VList ys \<Rightarrow> py_eq_list xs ys | _ \<Rightarrow> False)"
| "py_eq (VDict a) w =
     (case w of VDict b \<Rightarrow> length a = length b \<and> py_eq_items a b | _ \<Rightarrow> False)"
| "py_eq_list [] ys = (ys = [])"
| "py_eq_list (x # xs) ys =
     (case ys of [] \<Rightarrow> False | y # ys' \<Rightarrow> py_eq x y \<and> py_eq_list xs ys')"
| "py_eq_items [] b = True"
| "py_eq_items (kv # a) b =
     (case map_of b (fst kv) of
        None \<Rightarrow> False
      | Some v' \<Rightarrow> py_eq (snd kv) v' \<and> py_eq_items a b)"

text \<open>
  \<^verbatim>\<open>v < w\<close>: numbers with numbers, strings with strings (by code point, which is the
  byte order of UTF-8), lists with lists (the first pair of unequal elements decides,
  else the shorter list is smaller); everything else raises \<^verbatim>\<open>TypeError\<close>.
\<close>

fun py_lt :: "val \<Rightarrow> val \<Rightarrow> error + bool"
  and py_lt_list :: "val list \<Rightarrow> val list \<Rightarrow> error + bool" where
  "py_lt VNone w = Inl TypeError"
| "py_lt (VBool a) w =
     (case w of VBool b \<Rightarrow> Inr (int_of_bool a < int_of_bool b)
              | VInt j \<Rightarrow> Inr (int_of_bool a < j)
              | _ \<Rightarrow> Inl TypeError)"
| "py_lt (VInt i) w =
     (case w of VBool b \<Rightarrow> Inr (i < int_of_bool b)
              | VInt j \<Rightarrow> Inr (i < j)
              | _ \<Rightarrow> Inl TypeError)"
| "py_lt (VStr s) w = (case w of VStr t \<Rightarrow> Inr (s < t) | _ \<Rightarrow> Inl TypeError)"
| "py_lt (VList xs) w = (case w of VList ys \<Rightarrow> py_lt_list xs ys | _ \<Rightarrow> Inl TypeError)"
| "py_lt (VDict a) w = Inl TypeError"
| "py_lt_list [] ys = Inr (ys \<noteq> [])"
| "py_lt_list (x # xs) ys =
     (case ys of
        [] \<Rightarrow> Inr False
      | y # ys' \<Rightarrow> if py_eq x y then py_lt_list xs ys' else py_lt x y)"

text \<open>\<^verbatim>\<open>v > w\<close> on these values is \<^verbatim>\<open>w < v\<close>.\<close>

definition py_gt :: "val \<Rightarrow> val \<Rightarrow> error + bool" where
  "py_gt v w = py_lt w v"

fun is_substr :: "string \<Rightarrow> string \<Rightarrow> bool" where
  "is_substr t [] = (t = [])"
| "is_substr t (c # s) = (take (length t) (c # s) = t \<or> is_substr t s)"

text \<open>
  \<^verbatim>\<open>v in c\<close>: an element of a list equal to \<open>v\<close>, a substring of a string (the left
  operand must be a string), a key of a dictionary (the left operand must be hashable);
  any other container raises \<^verbatim>\<open>TypeError\<close>.
\<close>

fun py_in :: "val \<Rightarrow> val \<Rightarrow> error + bool" where
  "py_in v (VList xs) = Inr (list_ex (\<lambda>x. py_eq x v) xs)"
| "py_in v (VStr s) = (case v of VStr t \<Rightarrow> Inr (is_substr t s) | _ \<Rightarrow> Inl TypeError)"
| "py_in v (VDict kvs) =
     (case v of
        VList xs \<Rightarrow> Inl TypeError
      | VDict d \<Rightarrow> Inl TypeError
      | VStr k \<Rightarrow> Inr (map_of kvs k \<noteq> None)
      | _ \<Rightarrow> Inr False)"
| "py_in v VNone = Inl TypeError"
| "py_in v (VBool b) = Inl TypeError"
| "py_in v (VInt i) = Inl TypeError"

text \<open>\<^verbatim>\<open>c[k]\<close> with a string \<open>k\<close>: only a dictionary can be subscripted so.\<close>

fun py_getitem :: "val \<Rightarrow> string \<Rightarrow> error + val" where
  "py_getitem (VDict kvs) k =
     (case map_of kvs k of None \<Rightarrow> Inl (KeyError (VStr k)) | Some v \<Rightarrow> Inr v)"
| "py_getitem v k = Inl TypeError"

text \<open>
  \<^verbatim>\<open>for x in c\<close>: the elements of a list, the keys of a dictionary, the characters of
  a string.
\<close>

fun py_iter :: "val \<Rightarrow> error + val list" where
  "py_iter (VList xs) = Inr xs"
| "py_iter (VDict kvs) = Inr (map (\<lambda>kv. VStr (fst kv)) kvs)"
| "py_iter (VStr s) = Inr (map (\<lambda>c. VStr [c]) s)"
| "py_iter v = Inl TypeError"

section \<open>Condition and CompositeCondition\<close>

text \<open>
  \<^verbatim>\<open>Node = Union[Condition, CompositeCondition]\<close>. The fields of a \<open>Condition\<close> are
  whatever the specification held: the dataclass checks nothing.
\<close>

datatype Node =
    Condition val val val
  | CompositeCondition string "Node list"

text \<open>\<^verbatim>\<open>self.field.split(".")\<close>: always at least one part.\<close>

fun split_dot :: "string \<Rightarrow> string list" where
  "split_dot [] = [[]]"
| "split_dot (c # cs) =
     (if c = CHR ''.'' then [] # split_dot cs
      else (case split_dot cs of [] \<Rightarrow> [[c]] | p # ps \<Rightarrow> (c # p) # ps))"

text \<open>The loop of \<^verbatim>\<open>Condition._get_nested\<close>, over the parts of the path.\<close>

fun get_nested :: "string list \<Rightarrow> val \<Rightarrow> val" where
  "get_nested [] current = current"
| "get_nested (part # parts) current =
     (case current of
        VDict kvs \<Rightarrow>
          (case map_of kvs part of None \<Rightarrow> VNone | Some v \<Rightarrow> get_nested parts v)
      | _ \<Rightarrow> VNone)"

text \<open>
  \<^verbatim>\<open>Condition.eval\<close>. A field that is no string has no \<^verbatim>\<open>split\<close>
  (\<^verbatim>\<open>AttributeError\<close>); the test for \<^verbatim>\<open>None\<close> comes before the operator is looked at.
\<close>

definition Condition_eval :: "val \<Rightarrow> val \<Rightarrow> val \<Rightarrow> val \<Rightarrow> error + bool" where
  "Condition_eval field op operand tx =
     (case field of
        VStr path \<Rightarrow>
          (let v = get_nested (split_dot path) tx in
           if v = VNone then Inr False
           else if py_eq op (VStr ''gt'') then py_gt v operand
           else if py_eq op (VStr ''lt'') then py_lt v operand
           else if py_eq op (VStr ''eq'') then Inr (py_eq v operand)
           else if py_eq op (VStr ''in'') then py_in v operand
           else Inl (UnknownOperator op))
      | _ \<Rightarrow> Inl AttributeError)"

text \<open>
  \<^verbatim>\<open>CompositeCondition.eval\<close>: \<^verbatim>\<open>all\<close> and \<^verbatim>\<open>any\<close> over a generator stop at the
  first child that decides, so the children after it are not evaluated and cannot raise.
\<close>

fun eval :: "Node \<Rightarrow> val \<Rightarrow> error + bool"
  and eval_all :: "Node list \<Rightarrow> val \<Rightarrow> error + bool"
  and eval_any :: "Node list \<Rightarrow> val \<Rightarrow> error + bool" where
  "eval (Condition field op operand) tx = Condition_eval field op operand tx"
| "eval (CompositeCondition mode children) tx =
     (if mode = ''all'' then eval_all children tx else eval_any children tx)"
| "eval_all [] tx = Inr True"
| "eval_all (child # children) tx =
     (case eval child tx of
        Inl e \<Rightarrow> Inl e
      | Inr b \<Rightarrow> if b then eval_all children tx else Inr False)"
| "eval_any [] tx = Inr False"
| "eval_any (child # children) tx =
     (case eval child tx of
        Inl e \<Rightarrow> Inl e
      | Inr b \<Rightarrow> if b then Inr True else eval_any children tx)"

text \<open>
  What the path of a field resolves to, with absence told apart from a present
  \<^verbatim>\<open>None\<close>: \<open>None\<close> when at some step the current value is no dictionary or lacks
  the next part, \<open>Some v\<close> when the walk arrives at \<open>v\<close>. The claims about missing and
  null fields are stated with it.
\<close>

fun resolve_path :: "string list \<Rightarrow> val \<Rightarrow> val option" where
  "resolve_path [] current = Some current"
| "resolve_path (part # parts) current =
     (case current of
        VDict kvs \<Rightarrow>
          (case map_of kvs part of None \<Rightarrow> None | Some v \<Rightarrow> resolve_path parts v)
      | _ \<Rightarrow> None)"

section \<open>Rules and their compilation\<close>

text \<open>
  \<^verbatim>\<open>Rule\<close>: the dataclass declares \<^verbatim>\<open>name: str\<close> and \<^verbatim>\<open>action: Decision\<close>, but
  stores what it is given; \<^verbatim>\<open>priority\<close> went through \<^verbatim>\<open>int()\<close>.
\<close>

record Rule =
  name :: val
  root :: Node
  action :: val
  priority :: int

text \<open>A list comprehension or loop whose body can raise: the first error ends it.\<close>

fun traverse :: "('a \<Rightarrow> error + 'b) \<Rightarrow> 'a list \<Rightarrow> error + 'b list" where
  "traverse f [] = Inr []"
| "traverse f (x # xs) =
     (case f x of
        Inl e \<Rightarrow> Inl e
      | Inr y \<Rightarrow> (case traverse f xs of Inl e \<Rightarrow> Inl e | Inr ys \<Rightarrow> Inr (y # ys)))"

lemma traverse_cong [fundef_cong]:
  "xs = ys \<Longrightarrow> (\<And>x. x \<in> set ys \<Longrightarrow> f x = g x) \<Longrightarrow> traverse f xs = traverse g ys"
  by (induction ys arbitrary: xs) (auto split: sum.splits)

lemma weight_map_of: "map_of kvs k = Some v \<Longrightarrow> weight v < Suc (weight_items kvs)"
  by (induction kvs) (auto split: if_splits)

lemma weight_getitem: "py_getitem spec k = Inr v \<Longrightarrow> weight v < weight spec"
  by (cases spec) (auto split: option.splits dest: weight_map_of)

lemma weight_list_mem: "x \<in> set xs \<Longrightarrow> weight x \<le> weight_list xs"
  by (induction xs) auto

lemma weight_items_key: "kv \<in> set kvs \<Longrightarrow> length (fst kv) < weight_items kvs"
  by (induction kvs) auto

lemma weight_iter: "py_iter v = Inr xs \<Longrightarrow> x \<in> set xs \<Longrightarrow> weight x \<le> weight v"
proof (cases v)
  case (VList ys)
  assume "py_iter v = Inr xs" "x \<in> set xs"
  with VList show ?thesis using weight_list_mem [of x ys] by simp
next
  case (VDict kvs)
  assume "py_iter v = Inr xs" "x \<in> set xs"
  with VDict obtain kv where "kv \<in> set kvs" "x = VStr (fst kv)" by auto
  with VDict show ?thesis using weight_items_key [of kv kvs] by simp
next
  case (VStr s)
  assume "py_iter v = Inr xs" "x \<in> set xs"
  with VStr obtain c where "c \<in> set s" "x = VStr [c]" by auto
  then have "s \<noteq> []" by auto
  then have "1 \<le> length s" by (cases s) auto
  with VStr \<open>x = VStr [c]\<close> show ?thesis by simp
qed auto

text \<open>
  \<^verbatim>\<open>build_node\<close>. The tests \<^verbatim>\<open>"all" in spec or "any" in spec\<close> are Python's
  \<^verbatim>\<open>in\<close> on whatever the specification is; the operator of a leaf is copied, not
  checked.
\<close>

function build_node :: "val \<Rightarrow> error + Node" where
  "build_node spec =
     (case py_in (VStr ''all'') spec of
        Inl e \<Rightarrow> Inl e
      | Inr has_all \<Rightarrow>
          (case (if has_all then Inr True else py_in (VStr ''any'') spec) of
             Inl e \<Rightarrow> Inl e
           | Inr composite \<Rightarrow>
               if composite then
                 (let mode = (if has_all then ''all'' else ''any'') in
                  case py_getitem spec mode of
                    Inl e \<Rightarrow> Inl e
                  | Inr child_specs \<Rightarrow>
                      (case py_iter child_specs of
                         Inl e \<Rightarrow> Inl e
                       | Inr cs \<Rightarrow>
                           (case traverse build_node cs of
                              Inl e \<Rightarrow> Inl e
                            | Inr children \<Rightarrow> Inr (CompositeCondition mode children))))
               else
                 (case py_getitem spec ''field'' of
                    Inl e \<Rightarrow> Inl e
                  | Inr field \<Rightarrow>
                      (case py_getitem spec ''op'' of
                         Inl e \<Rightarrow> Inl e
                       | Inr op \<Rightarrow>
                           (case py_getitem spec ''value'' of
                              Inl e \<Rightarrow> Inl e
                            | Inr operand \<Rightarrow> Inr (Condition field op operand))))))"
  by pat_completeness auto
termination
proof (relation "measure weight")
  show "wf (measure weight)" by simp
next
  fix spec :: val and has_all composite :: bool and mode :: string
    and child_specs :: val and cs :: "val list" and x :: val
  assume "py_getitem spec mode = Inr child_specs" "py_iter child_specs = Inr cs" "x \<in> set cs"
  then have "weight x < weight spec"
    using weight_getitem [of spec mode child_specs] weight_iter [of child_specs cs x] by simp
  then show "(x, spec) \<in> measure weight" by simp
qed

declare build_node.simps [simp del]

text \<open>\<^verbatim>\<open>r.get(key, dflt)\<close>: a method of dictionaries only.\<close>

fun py_get :: "val \<Rightarrow> string \<Rightarrow> val \<Rightarrow> error + val" where
  "py_get (VDict kvs) k dflt =
     Inr (case map_of kvs k of None \<Rightarrow> dflt | Some v \<Rightarrow> v)"
| "py_get v k dflt = Inl AttributeError"

text \<open>
  \<^verbatim>\<open>int(v)\<close>. What \<^verbatim>\<open>int\<close> accepts in a string (white space, sign, digits of any
  script, underscores, a limit on the number of digits) depends on the interpreter's
  version and configuration: the conversion of a string is a parameter, which returns
  the integer or raises.
\<close>

fun py_int :: "(string \<Rightarrow> error + int) \<Rightarrow> val \<Rightarrow> error + int" where
  "py_int int_of_str (VInt i) = Inr i"
| "py_int int_of_str (VBool b) = Inr (int_of_bool b)"
| "py_int int_of_str (VStr s) = int_of_str s"
| "py_int int_of_str v = Inl TypeError"

text \<open>The condition that \<^verbatim>\<open>load_rules_from_yaml\<close> puts in for a missing or empty \<^verbatim>\<open>when\<close>.\<close>

definition always_spec :: val where
  "always_spec =
     VDict [(''field'', VStr ''__always__''), (''op'', VStr ''eq''), (''value'', VBool True)]"

text \<open>
  The body of the loop of \<^verbatim>\<open>load_rules_from_yaml\<close>, for one entry \<open>r\<close>. The arguments
  of \<^verbatim>\<open>Rule(...)\<close> are evaluated from left to right, so this is the order of the errors.
\<close>

definition load_rule :: "(string \<Rightarrow> error + int) \<Rightarrow> val \<Rightarrow> error + Rule" where
  "load_rule int_of_str r =
     (case py_get r ''when'' VNone of
        Inl e \<Rightarrow> Inl e
      | Inr w \<Rightarrow>
          (let when_spec = (if truthy w then w else always_spec) in
           case py_getitem r ''name'' of
             Inl e \<Rightarrow> Inl e
           | Inr n \<Rightarrow>
               (case build_node when_spec of
                  Inl e \<Rightarrow> Inl e
                | Inr node \<Rightarrow>
                    (case py_getitem r ''action'' of
                       Inl e \<Rightarrow> Inl e
                     | Inr a \<Rightarrow>
                         (case py_get r ''priority'' (VInt 0) of
                            Inl e \<Rightarrow> Inl e
                          | Inr p \<Rightarrow>
                              (case py_int int_of_str p of
                                 Inl e \<Rightarrow> Inl e
                               | Inr i \<Rightarrow>
                                   Inr \<lparr>name = n, root = node, action = a, priority = i\<rparr>))))))"

text \<open>
  \<^verbatim>\<open>load_rules_from_yaml\<close>. The parser (\<^verbatim>\<open>yaml.safe_load\<close> after
  \<^verbatim>\<open>textwrap.dedent\<close>) is a parameter: it turns the text into a value or raises.
  So is the conversion of a string by \<^verbatim>\<open>int\<close>.
\<close>

definition load_rules_from_yaml :: "(string \<Rightarrow> error + val) \<Rightarrow> (string \<Rightarrow> error + int)
    \<Rightarrow> string \<Rightarrow> error + Rule list" where
  "load_rules_from_yaml safe_load int_of_str yaml_text =
     (case safe_load yaml_text of
        Inl e \<Rightarrow> Inl e
      | Inr raw \<Rightarrow>
          (case py_iter raw of
             Inl e \<Rightarrow> Inl e
           | Inr rs \<Rightarrow> traverse (load_rule int_of_str) rs))"

section \<open>The policy engine\<close>

record PolicyEngine =
  rules :: "Rule list"
  action_rank :: "(string \<times> int) list"

text \<open>\<^verbatim>\<open>PolicyEngine.__init__\<close>.\<close>

definition PolicyEngine_init :: "Rule list \<Rightarrow> PolicyEngine" where
  "PolicyEngine_init rs =
     \<lparr>rules = rs, action_rank = [(''block'', 2), (''flag'', 1), (''allow'', 0)]\<rparr>"

text \<open>
  \<^verbatim>\<open>self.action_rank[r.action]\<close>: a list or dictionary is unhashable, anything else
  that is no key of the table is a \<^verbatim>\<open>KeyError\<close>.
\<close>

fun rank_of :: "(string \<times> int) list \<Rightarrow> val \<Rightarrow> error + int" where
  "rank_of table (VStr s) =
     (case map_of table s of None \<Rightarrow> Inl (KeyError (VStr s)) | Some k \<Rightarrow> Inr k)"
| "rank_of table (VList xs) = Inl TypeError"
| "rank_of table (VDict kvs) = Inl TypeError"
| "rank_of table v = Inl (KeyError v)"

text \<open>
  \<^verbatim>\<open>sorted(self.rules, key=lambda r: (-r.priority, r.name))\<close>. Two keys are compared
  as tuples: the priorities decide when they differ, else the names, which are compared
  with \<^verbatim>\<open><\<close> only when they are not equal. The sort is stable; it is written here as
  an insertion from the right, and a comparison that raises ends it.
\<close>

definition key_lt :: "Rule \<Rightarrow> Rule \<Rightarrow> error + bool" where
  "key_lt a b =
     (if - priority a \<noteq> - priority b then Inr (- priority a < - priority b)
      else if py_eq (name a) (name b) then Inr False
      else py_lt (name a) (name b))"

fun insert_rule :: "Rule \<Rightarrow> Rule list \<Rightarrow> error + Rule list" where
  "insert_rule r [] = Inr [r]"
| "insert_rule r (y # ys) =
     (case key_lt y r of
        Inl e \<Rightarrow> Inl e
      | Inr b \<Rightarrow>
          if b then (case insert_rule r ys of Inl e \<Rightarrow> Inl e | Inr zs \<Rightarrow> Inr (y # zs))
          else Inr (r # y # ys))"

fun sorted_rules :: "Rule list \<Rightarrow> error + Rule list" where
  "sorted_rules [] = Inr []"
| "sorted_rules (r # rs) =
     (case sorted_rules rs of Inl e \<Rightarrow> Inl e | Inr ordered \<Rightarrow> insert_rule r ordered)"

text \<open>The loop of \<^verbatim>\<open>evaluate\<close> over the ordered rules, with its two accumulators.\<close>

fun eval_loop :: "val \<Rightarrow> Rule list \<Rightarrow> (val \<times> bool) list \<Rightarrow> Rule list
    \<Rightarrow> error + ((val \<times> bool) list \<times> Rule list)" where
  "eval_loop tx [] trace matched = Inr (trace, matched)"
| "eval_loop tx (r # rs) trace matched =
     (case eval (root r) tx of
        Inl e \<Rightarrow> Inl e
      | Inr result \<Rightarrow>
          eval_loop tx rs (trace @ [(name r, result)])
            (if result then matched @ [r] else matched))"

text \<open>
  \<^verbatim>\<open>max(matched, key=lambda r: (self.action_rank[r.action], r.priority))\<close>: the key of
  every item is computed in turn, and an item replaces the current maximum only when its
  key is strictly greater, so among equal keys the first one stays.
\<close>

definition max_key :: "(string \<times> int) list \<Rightarrow> Rule \<Rightarrow> error + (int \<times> int)" where
  "max_key table r =
     (case rank_of table (action r) of Inl e \<Rightarrow> Inl e | Inr k \<Rightarrow> Inr (k, priority r))"

fun max_loop :: "(string \<times> int) list \<Rightarrow> Rule list \<Rightarrow> Rule \<Rightarrow> int \<times> int \<Rightarrow> error + Rule" where
  "max_loop table [] maxitem maxval = Inr maxitem"
| "max_loop table (item # items) maxitem maxval =
     (case max_key table item of
        Inl e \<Rightarrow> Inl e
      | Inr v \<Rightarrow>
          if v > maxval then max_loop table items item v
          else max_loop table items maxitem maxval)"

fun py_max :: "(string \<times> int) list \<Rightarrow> Rule list \<Rightarrow> error + Rule" where
  "py_max table [] = Inl EmptySequence"
| "py_max table (item # items) =
     (case max_key table item of
        Inl e \<Rightarrow> Inl e
      | Inr v \<Rightarrow> max_loop table items item v)"

text \<open>The dictionary that \<^verbatim>\<open>evaluate\<close> returns.\<close>

record Evaluation =
  decision :: val
  rule :: val
  matched_rules :: "val list"
  trace :: "(val \<times> bool) list"

definition evaluate :: "PolicyEngine \<Rightarrow> val \<Rightarrow> error + Evaluation" where
  "evaluate engine tx =
     (case sorted_rules (rules engine) of
        Inl e \<Rightarrow> Inl e
      | Inr ordered \<Rightarrow>
          (case eval_loop tx ordered [] [] of
             Inl e \<Rightarrow> Inl e
           | Inr (tr, matched) \<Rightarrow>
               if matched = [] then
                 Inr \<lparr>decision = VStr ''allow'', rule = VNone,
                      matched_rules = map name matched, trace = tr\<rparr>
               else
                 (case py_max (action_rank engine) matched of
                    Inl e \<Rightarrow> Inl e
                  | Inr chosen \<Rightarrow>
                      Inr \<lparr>decision = action chosen, rule = name chosen,
                           matched_rules = map name matched, trace = tr\<rparr>)))"



section \<open>Specifications that differ in their operators\<close>









section \<open>Vocabulary of the claims about the engine\<close>

text \<open>
  The claims speak of rule sets as the \<^verbatim>\<open>Rule\<close> dataclass declares them: the name is a
  string and the action is one of \<^verbatim>\<open>allow\<close>, \<^verbatim>\<open>block\<close>, \<^verbatim>\<open>flag\<close>. They speak of
  the order by descending priority and ascending name, of the pair of severity rank and
  priority, of a rule that matches a transaction and of a condition that raises.
\<close>

fun str_of :: "val \<Rightarrow> string" where
  "str_of (VStr s) = s"
| "str_of v = []"

fun is_str :: "val \<Rightarrow> bool" where
  "is_str (VStr s) = True"
| "is_str v = False"

definition order_key :: "Rule \<Rightarrow> int \<times> string" where
  "order_key r = (- priority r, str_of (name r))"

definition severity_rank :: "val \<Rightarrow> int" where
  "severity_rank a = (if a = VStr ''block'' then 2 else if a = VStr ''flag'' then 1 else 0)"

definition severity :: "Rule \<Rightarrow> int \<times> int" where
  "severity r = (severity_rank (action r), priority r)"

definition valid_action :: "val \<Rightarrow> bool" where
  "valid_action a = (a = VStr ''allow'' \<or> a = VStr ''block'' \<or> a = VStr ''flag'')"

definition well_typed :: "Rule \<Rightarrow> bool" where
  "well_typed r = (is_str (name r) \<and> valid_action (action r))"

definition matches :: "val \<Rightarrow> Rule \<Rightarrow> bool" where
  "matches tx r = (eval (root r) tx = Inr True)"

definition raises :: "val \<Rightarrow> Rule \<Rightarrow> bool" where
  "raises tx r = isl (eval (root r) tx)"

definition precedes :: "Rule \<Rightarrow> Rule \<Rightarrow> bool" where
  "precedes a b =
     (priority b < priority a \<or>
      (priority a = priority b \<and> str_of (name a) \<le> str_of (name b)))"

text \<open>Rule sets that the examples below evaluate.\<close>

definition rule_a :: Rule where
  "rule_a = \<lparr>name = VStr ''a'', root = Condition (VStr ''amount'') (VStr ''gt'') (VInt 10),
             action = VStr ''block'', priority = 1\<rparr>"

definition rule_b :: Rule where
  "rule_b = \<lparr>name = VStr ''b'', root = CompositeCondition ''any'' [],
             action = VStr ''flag'', priority = 5\<rparr>"

definition always_true :: Node where
  "always_true = CompositeCondition ''all'' []"

definition flag_50 :: Rule where
  "flag_50 = \<lparr>name = VStr ''f'', root = always_true, action = VStr ''flag'', priority = 50\<rparr>"

definition block_1 :: Rule where
  "block_1 = \<lparr>name = VStr ''b'', root = always_true, action = VStr ''block'', priority = 1\<rparr>"

definition flag_10 :: Rule where
  "flag_10 = \<lparr>name = VStr ''ten'', root = always_true, action = VStr ''flag'', priority = 10\<rparr>"

definition flag_5 :: Rule where
  "flag_5 = \<lparr>name = VStr ''five'', root = always_true, action = VStr ''flag'', priority = 5\<rparr>"

text \<open>
  A conversion of strings for the examples, which have no string priority, and
  specifications that the examples load.
\<close>

definition no_int :: "string \<Rightarrow> error + int" where
  "no_int s = Inl (InvalidLiteral s)"



section \<open>Composite conditions\<close>

text \<open>
  C9. For every transaction, a composite with mode \<^verbatim>\<open>all\<close> and no children evaluates
  to true, and a composite with mode \<^verbatim>\<open>any\<close> and no children evaluates to false: the
  neutral elements of conjunction and disjunction.
\<close>

theorem composite_empty_children:
  "eval (CompositeCondition ''all'' []) tx = Inr True \<and>
   eval (CompositeCondition ''any'' []) tx = Inr False"
  by simp

section \<open>Conditions on missing and null fields\<close>

lemma py_eq_VStr: "py_eq v (VStr s) = (v = VStr s)"
  by (cases v) auto

lemma get_nested_resolve:
  "get_nested parts current =
     (case resolve_path parts current of None \<Rightarrow> VNone | Some v \<Rightarrow> v)"
  by (induction parts arbitrary: current) (auto split: val.splits option.splits)

lemma Condition_eval_None:
  "get_nested (split_dot path) tx = VNone \<Longrightarrow>
   eval (Condition (VStr path) op operand) tx = Inr False"
  by (simp add: Condition_eval_def)

text \<open>
  C8. When the dotted path of a condition does not resolve in the transaction (at some
  step the current value is no dictionary, or it lacks the next part), the condition
  evaluates to false, without raising, whatever its operator and operand are. In
  particular a condition on \<^verbatim>\<open>originator.kyc\<close> is false on every transaction that has
  no key \<^verbatim>\<open>originator\<close>.
\<close>

theorem missing_field_is_false:
  "(resolve_path (split_dot path) tx = None \<longrightarrow>
      eval (Condition (VStr path) op operand) tx = Inr False) \<and>
   (map_of kvs ''originator'' = None \<longrightarrow>
      eval (Condition (VStr ''originator.kyc'') op operand) (VDict kvs) = Inr False)"
proof (intro conjI impI)
  assume "resolve_path (split_dot path) tx = None"
  then have "get_nested (split_dot path) tx = VNone"
    by (simp add: get_nested_resolve)
  then show "eval (Condition (VStr path) op operand) tx = Inr False"
    by (rule Condition_eval_None)
next
  assume "map_of kvs ''originator'' = None"
  then have "get_nested (split_dot ''originator.kyc'') (VDict kvs) = VNone"
    by simp
  then show "eval (Condition (VStr ''originator.kyc'') op operand) (VDict kvs) = Inr False"
    by (rule Condition_eval_None)
qed

theorem missing_field_is_false_witness:
  "resolve_path (split_dot ''originator.kyc'') (VDict [(''amount'', VInt 5000)]) = None \<and>
   eval (Condition (VStr ''originator.kyc'') (VStr ''eq'') (VBool False))
     (VDict [(''amount'', VInt 5000)]) = Inr False \<and>
   map_of [(''amount'', VInt 5000)] ''originator'' = None \<and>
   eval (Condition (VStr ''originator.kyc'') (VStr ''regex'') (VList []))
     (VDict [(''amount'', VInt 5000)]) = Inr False"
  using missing_field_is_false [of "''originator.kyc''" "VDict [(''amount'', VInt 5000)]"
      "VStr ''eq''" "VBool False" "[(''amount'', VInt 5000)]"]
    missing_field_is_false [of "''originator.kyc''" "VDict [(''amount'', VInt 5000)]"
      "VStr ''regex''" "VList []" "[(''amount'', VInt 5000)]"]
  by simp

text \<open>
  C10. When the path of a condition resolves to a value that is present and is
  \<^verbatim>\<open>None\<close>, the condition evaluates to false for every operator and operand, exactly
  as it does when the path does not resolve: \<^verbatim>\<open>eq\<close> against \<^verbatim>\<open>None\<close> does not match
  a null field, and an unknown operator on a null or missing field raises nothing.
\<close>

theorem null_field_is_false:
  assumes "resolve_path (split_dot path) tx = Some VNone \<or>
           resolve_path (split_dot path) tx = None"
  shows "eval (Condition (VStr path) op operand) tx = Inr False"
proof -
  from assms have "get_nested (split_dot path) tx = VNone"
    by (auto simp: get_nested_resolve)
  then show ?thesis by (rule Condition_eval_None)
qed

theorem null_field_is_false_witness:
  "resolve_path (split_dot ''originator.kyc'')
     (VDict [(''originator'', VDict [(''kyc'', VNone)])]) = Some VNone \<and>
   eval (Condition (VStr ''originator.kyc'') (VStr ''eq'') VNone)
     (VDict [(''originator'', VDict [(''kyc'', VNone)])]) = Inr False \<and>
   eval (Condition (VStr ''originator.kyc'') (VStr ''regex'') (VInt 1))
     (VDict [(''originator'', VDict [(''kyc'', VNone)])]) = Inr False"
  using null_field_is_false [of "''originator.kyc''"
      "VDict [(''originator'', VDict [(''kyc'', VNone)])]" "VStr ''eq''" VNone]
    null_field_is_false [of "''originator.kyc''"
      "VDict [(''originator'', VDict [(''kyc'', VNone)])]" "VStr ''regex''" "VInt 1"]
  by simp

section \<open>Unknown operators at evaluation\<close>

text \<open>
  C5 as stated fails: a condition with the operator \<^verbatim>\<open>regex\<close> on a transaction that
  lacks its field evaluates to false and raises nothing, because \<^verbatim>\<open>Condition.eval\<close>
  returns on \<^verbatim>\<open>v is None\<close> before it looks at the operator.
\<close>

theorem unknown_operator_silently_false:
  "eval (Condition (VStr ''amount'') (VStr ''regex'') (VInt 1)) (VDict []) = Inr False"
  by (simp add: Condition_eval_def)

text \<open>
  C5, amended. On every transaction in which the path of the condition resolves to a
  value other than \<^verbatim>\<open>None\<close>, a condition whose operator is none of \<^verbatim>\<open>gt\<close>, \<^verbatim>\<open>lt\<close>,
  \<^verbatim>\<open>eq\<close>, \<^verbatim>\<open>in\<close> raises the unknown-operator error, whatever its operand.
\<close>

theorem unknown_operator_raises:
  assumes "resolve_path (split_dot path) tx = Some v" and "v \<noteq> VNone"
    and "op \<noteq> VStr ''gt''" and "op \<noteq> VStr ''lt''"
    and "op \<noteq> VStr ''eq''" and "op \<noteq> VStr ''in''"
  shows "eval (Condition (VStr path) op operand) tx = Inl (UnknownOperator op)"
  using assms by (simp add: Condition_eval_def get_nested_resolve py_eq_VStr)

theorem unknown_operator_raises_witness:
  "resolve_path (split_dot ''amount'') (VDict [(''amount'', VInt 7)]) = Some (VInt 7) \<and>
   eval (Condition (VStr ''amount'') (VStr ''regex'') (VInt 1)) (VDict [(''amount'', VInt 7)])
     = Inl (UnknownOperator (VStr ''regex''))"
  using unknown_operator_raises [of "''amount''" "VDict [(''amount'', VInt 7)]" "VInt 7"
      "VStr ''regex''" "VInt 1"]
  by simp

section \<open>Compilation of rule specifications\<close>

lemma always_node: "build_node always_spec = Inr (Condition (VStr ''__always__'') (VStr ''eq'') (VBool True))"
  by (simp add: always_spec_def build_node.simps)

text \<open>
  C1 does not hold of the code. The condition that \<^verbatim>\<open>load_rules_from_yaml\<close> puts in
  for an empty \<^verbatim>\<open>when\<close> tests the field \<^verbatim>\<open>__always__\<close>, which a transaction does not
  have, and a missing field is false: the rule \<^verbatim>\<open>default_allow\<close> of the default rule
  set, loaded, does not match the transaction of the specification's third scenario.
\<close>

theorem default_allow_never_matches:
  "load_rules_from_yaml
     (\<lambda>text. Inr (VList [VDict [(''name'', VStr ''default_allow''), (''when'', VDict []),
                                (''action'', VStr ''allow''), (''priority'', VInt 0)]]))
     int_of_str yaml_text
     = Inr [\<lparr>name = VStr ''default_allow'',
              root = Condition (VStr ''__always__'') (VStr ''eq'') (VBool True),
              action = VStr ''allow'', priority = 0\<rparr>] \<and>
   eval (Condition (VStr ''__always__'') (VStr ''eq'') (VBool True))
     (VDict [(''originator'', VDict [(''kyc'', VBool True)]), (''amount'', VInt 15000),
             (''currency'', VStr ''EUR'')]) = Inr False"
  by (simp add: load_rules_from_yaml_def load_rule_def always_node Condition_eval_def)
















text \<open>
  C3 as stated fails: a rule specification with the action \<^verbatim>\<open>deny\<close> is loaded, and
  the rule produced carries that action.
\<close>

theorem invalid_action_is_compiled:
  "load_rules_from_yaml
     (\<lambda>text. Inr (VList [VDict [(''name'', VStr ''r1''), (''action'', VStr ''deny'')]]))
     no_int ''rules''
   = Inr [\<lparr>name = VStr ''r1'',
            root = Condition (VStr ''__always__'') (VStr ''eq'') (VBool True),
            action = VStr ''deny'', priority = 0\<rparr>]"
  by (simp add: load_rules_from_yaml_def load_rule_def always_node)

lemma traverse_Inr:
  "traverse f xs = Inr ys \<Longrightarrow> list_all2 (\<lambda>x y. f x = Inr y) xs ys"
  by (induction xs arbitrary: ys) (auto split: sum.splits)

lemma load_rule_action:
  "load_rule int_of_str spec = Inr r \<Longrightarrow> py_getitem spec ''action'' = Inr (action r)"
  by (auto simp: load_rule_def Let_def split: sum.splits)

lemma load_rule_update_action:
  assumes "load_rule int_of_str (VDict d) = Inr r"
  shows "load_rule int_of_str (VDict (AList.update ''action'' a d)) = Inr (r\<lparr>action := a\<rparr>)"
  using assms
  by (auto simp: load_rule_def Let_def update_conv' split: sum.splits option.splits
      split del: if_split)

text \<open>
  C3, amended. \<^verbatim>\<open>load_rules_from_yaml\<close> copies the action and does not check it: every
  rule it produces from a list of specifications carries the \<^verbatim>\<open>action\<close> value of its
  specification; a specification that compiles still compiles, to the same rule but for
  the action, when its action is replaced by any value; only a specification without the
  key \<^verbatim>\<open>action\<close> fails on account of the action.
\<close>

theorem action_unchecked_at_load:
  "(safe_load yaml_text = Inr (VList specs) \<and>
    load_rules_from_yaml safe_load int_of_str yaml_text = Inr rs \<longrightarrow>
      list_all2 (\<lambda>spec r. py_getitem spec ''action'' = Inr (action r)) specs rs) \<and>
   (load_rule int_of_str (VDict d) = Inr r \<longrightarrow>
      load_rule int_of_str (VDict (AList.update ''action'' a d)) = Inr (r\<lparr>action := a\<rparr>)) \<and>
   (map_of d ''action'' = None \<longrightarrow> (\<exists>e. load_rule int_of_str (VDict d) = Inl e))"
proof (intro conjI impI)
  assume "safe_load yaml_text = Inr (VList specs) \<and>
    load_rules_from_yaml safe_load int_of_str yaml_text = Inr rs"
  then have "traverse (load_rule int_of_str) specs = Inr rs"
    by (clarsimp simp: load_rules_from_yaml_def)
  then have "list_all2 (\<lambda>spec r. load_rule int_of_str spec = Inr r) specs rs"
    by (rule traverse_Inr)
  then show "list_all2 (\<lambda>spec r. py_getitem spec ''action'' = Inr (action r)) specs rs"
    by (rule list_all2_mono) (rule load_rule_action)
next
  assume "load_rule int_of_str (VDict d) = Inr r"
  then show "load_rule int_of_str (VDict (AList.update ''action'' a d)) = Inr (r\<lparr>action := a\<rparr>)"
    by (rule load_rule_update_action)
next
  assume "map_of d ''action'' = None"
  then show "\<exists>e. load_rule int_of_str (VDict d) = Inl e"
    by (auto simp: load_rule_def Let_def split: sum.splits option.splits)
qed

theorem action_unchecked_at_load_witness:
  "load_rules_from_yaml
     (\<lambda>text. Inr (VList [VDict [(''name'', VStr ''r1''), (''action'', VStr ''deny'')]]))
     no_int ''x''
     = Inr [\<lparr>name = VStr ''r1'',
              root = Condition (VStr ''__always__'') (VStr ''eq'') (VBool True),
              action = VStr ''deny'', priority = 0\<rparr>] \<and>
   list_all2 (\<lambda>spec r. py_getitem spec ''action'' = Inr (action r))
     [VDict [(''name'', VStr ''r1''), (''action'', VStr ''deny'')]]
     [\<lparr>name = VStr ''r1'',
              root = Condition (VStr ''__always__'') (VStr ''eq'') (VBool True),
              action = VStr ''deny'', priority = 0\<rparr>] \<and>
   load_rule no_int (VDict [(''name'', VStr ''r1''), (''action'', VStr ''allow'')])
     = Inr \<lparr>name = VStr ''r1'',
              root = Condition (VStr ''__always__'') (VStr ''eq'') (VBool True),
              action = VStr ''allow'', priority = 0\<rparr> \<and>
   load_rule no_int
     (VDict (AList.update ''action'' (VInt 7) [(''name'', VStr ''r1''), (''action'', VStr ''allow'')]))
     = Inr \<lparr>name = VStr ''r1'',
              root = Condition (VStr ''__always__'') (VStr ''eq'') (VBool True),
              action = VInt 7, priority = 0\<rparr> \<and>
   map_of [(''name'', VStr ''r1'')] ''action'' = None \<and>
   load_rule no_int (VDict [(''name'', VStr ''r1'')]) = Inl (KeyError (VStr ''action''))"
  using action_unchecked_at_load [of
      "\<lambda>text. Inr (VList [VDict [(''name'', VStr ''r1''), (''action'', VStr ''deny'')]])" "''x''"
      "[VDict [(''name'', VStr ''r1''), (''action'', VStr ''deny'')]]" no_int
      "[\<lparr>name = VStr ''r1'',
              root = Condition (VStr ''__always__'') (VStr ''eq'') (VBool True),
              action = VStr ''deny'', priority = 0\<rparr>]"
      "[(''name'', VStr ''r1''), (''action'', VStr ''allow'')]"
      "\<lparr>name = VStr ''r1'',
              root = Condition (VStr ''__always__'') (VStr ''eq'') (VBool True),
              action = VStr ''allow'', priority = 0\<rparr>" "VInt 7"]
  by (simp add: load_rules_from_yaml_def load_rule_def always_node)


section \<open>Evaluation of a rule set\<close>

text \<open>
  On names that are strings no comparison of the sort raises, and the order is the
  stable sort by descending priority and ascending name.
\<close>

lemma key_lt_strings:
  "is_str (name a) \<Longrightarrow> is_str (name b) \<Longrightarrow> key_lt a b = Inr (order_key a < order_key b)"
  by (cases "name a"; cases "name b") (auto simp: key_lt_def order_key_def)

lemma insert_rule_insort:
  "is_str (name r) \<Longrightarrow> list_all (\<lambda>y. is_str (name y)) ys \<Longrightarrow>
   insert_rule r ys = Inr (insort_key order_key r ys)"
  by (induction ys) (auto simp: key_lt_strings)

lemma sorted_rules_sort_key:
  "list_all (\<lambda>r. is_str (name r)) rs \<Longrightarrow> sorted_rules rs = Inr (sort_key order_key rs)"
proof (induction rs)
  case Nil
  then show ?case by simp
next
  case (Cons r rs)
  then have "list_all (\<lambda>y. is_str (name y)) (sort_key order_key rs)"
    by (simp add: list_all_iff)
  with Cons show ?case
    by (simp add: insert_rule_insort)
qed

lemma eval_loop_result:
  "list_all (\<lambda>r. \<not> raises tx r) rs \<Longrightarrow>
   eval_loop tx rs tr m =
     Inr (tr @ map (\<lambda>r. (name r, matches tx r)) rs, m @ filter (matches tx) rs)"
proof (induction rs arbitrary: tr m)
  case Nil
  then show ?case by simp
next
  case (Cons r rs)
  from Cons.prems obtain b where b: "eval (root r) tx = Inr b"
    by (cases "eval (root r) tx") (auto simp: raises_def)
  from Cons.prems have "list_all (\<lambda>r. \<not> raises tx r) rs" by simp
  from Cons.IH [OF this] b show ?case
    by (simp add: matches_def)
qed

lemma max_loop_first_maximum:
  assumes "\<forall>x\<in>set items. max_key t x = Inr (k x)"
  shows "\<exists>w pre post. max_loop t items m (k m) = Inr w \<and> m # items = pre @ w # post \<and>
           (\<forall>x\<in>set pre. k x < k w) \<and> (\<forall>x\<in>set post. k x \<le> k w)"
  using assms
proof (induction items arbitrary: m)
  case Nil
  have "max_loop t [] m (k m) = Inr m \<and> [m] = [] @ m # [] \<and>
      (\<forall>x\<in>set []. k x < k m) \<and> (\<forall>x\<in>set []. k x \<le> k m)" by simp
  then show ?case by blast
next
  case (Cons item items)
  then have key: "max_key t item = Inr (k item)" and rest: "\<forall>x\<in>set items. max_key t x = Inr (k x)"
    by simp_all
  show ?case
  proof (cases "k item > k m")
    case True
    from Cons.IH [OF rest, of item] obtain w pre post where
      w: "max_loop t items item (k item) = Inr w" "item # items = pre @ w # post"
         "\<forall>x\<in>set pre. k x < k w" "\<forall>x\<in>set post. k x \<le> k w"
      by blast
    have "k item \<le> k w"
    proof (cases pre)
      case Nil with w(2) show ?thesis by simp
    next
      case (Cons p ps) with w(2,3) show ?thesis by auto
    qed
    with True have lt: "k m < k w" by simp
    have run: "max_loop t (item # items) m (k m) = Inr w"
      using key True w(1) by simp
    have split: "m # item # items = (m # pre) @ w # post"
      using w(2) by simp
    have "\<forall>x\<in>set (m # pre). k x < k w"
      using w(3) lt by simp
    with run split w(4) show ?thesis by blast
  next
    case False
    from Cons.IH [OF rest, of m] obtain w pre post where
      w: "max_loop t items m (k m) = Inr w" "m # items = pre @ w # post"
         "\<forall>x\<in>set pre. k x < k w" "\<forall>x\<in>set post. k x \<le> k w"
      by blast
    show ?thesis
    proof (cases pre)
      case Nil
      with w(2) have eq: "w = m" "items = post" by simp_all
      have run: "max_loop t (item # items) m (k m) = Inr w"
        using key False w(1) by simp
      have split: "m # item # items = [] @ w # (item # post)"
        using eq by simp
      have none: "\<forall>x\<in>set []. k x < k w" by simp
      have "\<forall>x\<in>set (item # post). k x \<le> k w"
        using w(4) False eq by auto
      with run split none show ?thesis by blast
    next
      case (Cons p ps)
      with w(2) have eq: "p = m" "items = ps @ w # post" by simp_all
      with w(3) Cons have lt: "k m < k w" by simp
      with False have lt': "k item < k w" by simp
      have run: "max_loop t (item # items) m (k m) = Inr w"
        using key False w(1) by simp
      have split: "m # item # items = (m # item # ps) @ w # post"
        using eq by simp
      have "\<forall>x\<in>set (m # item # ps). k x < k w"
        using w(3) Cons lt lt' by simp
      with run split w(4) show ?thesis by blast
    qed
  qed
qed

lemma py_max_first_maximum:
  assumes "\<forall>x\<in>set items. max_key t x = Inr (k x)" and "items \<noteq> []"
  shows "\<exists>w pre post. py_max t items = Inr w \<and> items = pre @ w # post \<and>
           (\<forall>x\<in>set pre. k x < k w) \<and> (\<forall>x\<in>set post. k x \<le> k w)"
proof (cases items)
  case Nil with assms show ?thesis by simp
next
  case (Cons m ms)
  with assms have "\<forall>x\<in>set ms. max_key t x = Inr (k x)" "max_key t m = Inr (k m)" by simp_all
  from max_loop_first_maximum [OF this(1), of m] this(2) Cons show ?thesis by simp
qed

lemma max_key_severity:
  "valid_action (action r) \<Longrightarrow>
   max_key (action_rank (PolicyEngine_init rs)) r = Inr (severity r)"
  by (auto simp: valid_action_def max_key_def PolicyEngine_init_def severity_def severity_rank_def)

lemma order_key_le: "order_key a \<le> order_key b \<longleftrightarrow> precedes a b"
  by (auto simp: order_key_def precedes_def less_eq_prod_def)

lemma sorted_wrt_precedes: "sorted_wrt precedes (sort_key order_key rs)"
proof -
  have "sorted (map order_key (sort_key order_key rs))" by (rule sorted_sort_key)
  then show ?thesis by (simp add: sorted_map order_key_le)
qed

lemma evaluate_ordered:
  assumes names: "list_all (\<lambda>r. is_str (name r)) (rules engine)"
    and quiet: "list_all (\<lambda>r. \<not> raises tx r) (rules engine)"
  shows "evaluate engine tx =
     (if filter (matches tx) (sort_key order_key (rules engine)) = [] then
        Inr \<lparr>decision = VStr ''allow'', rule = VNone, matched_rules = [],
             trace = map (\<lambda>r. (name r, matches tx r)) (sort_key order_key (rules engine))\<rparr>
      else
        (case py_max (action_rank engine) (filter (matches tx) (sort_key order_key (rules engine))) of
           Inl e \<Rightarrow> Inl e
         | Inr chosen \<Rightarrow>
             Inr \<lparr>decision = action chosen, rule = name chosen,
                  matched_rules = map name (filter (matches tx) (sort_key order_key (rules engine))),
                  trace = map (\<lambda>r. (name r, matches tx r)) (sort_key order_key (rules engine))\<rparr>))"
proof -
  from quiet have "list_all (\<lambda>r. \<not> raises tx r) (sort_key order_key (rules engine))"
    by (simp add: list_all_iff)
  then have loop: "eval_loop tx (sort_key order_key (rules engine)) [] [] =
      Inr (map (\<lambda>r. (name r, matches tx r)) (sort_key order_key (rules engine)),
           filter (matches tx) (sort_key order_key (rules engine)))"
    using eval_loop_result [of tx "sort_key order_key (rules engine)" "[]" "[]"] by simp
  show ?thesis
    by (simp add: evaluate_def sorted_rules_sort_key [OF names] loop)
qed

text \<open>
  C7. For every engine whose rules have strings as names, and every transaction on
  which the root of every rule evaluates to false, \<^verbatim>\<open>evaluate\<close> returns the decision
  \<^verbatim>\<open>allow\<close>, \<^verbatim>\<open>None\<close> as the rule, no matched rules, and a trace with one false entry
  per rule.
\<close>

theorem no_match_allows:
  assumes "list_all (\<lambda>r. is_str (name r)) (rules engine)"
    and "list_all (\<lambda>r. eval (root r) tx = Inr False) (rules engine)"
  shows "evaluate engine tx =
     Inr \<lparr>decision = VStr ''allow'', rule = VNone, matched_rules = [],
          trace = map (\<lambda>r. (name r, False)) (sort_key order_key (rules engine))\<rparr>"
proof -
  from assms(2) have quiet: "list_all (\<lambda>r. \<not> raises tx r) (rules engine)"
    by (simp add: list_all_iff raises_def)
  from assms(2) have none: "\<forall>r\<in>set (sort_key order_key (rules engine)). \<not> matches tx r"
    by (simp add: list_all_iff matches_def)
  then have "filter (matches tx) (sort_key order_key (rules engine)) = []"
    by (simp add: filter_empty_conv)
  moreover from none have "map (\<lambda>r. (name r, matches tx r)) (sort_key order_key (rules engine))
      = map (\<lambda>r. (name r, False)) (sort_key order_key (rules engine))"
    by simp
  ultimately show ?thesis
    by (simp add: evaluate_ordered [OF assms(1) quiet])
qed

theorem no_match_allows_witness:
  "list_all (\<lambda>r. is_str (name r)) (rules (PolicyEngine_init [rule_a, rule_b])) \<and>
   list_all (\<lambda>r. eval (root r) (VDict [(''amount'', VInt 3)]) = Inr False)
     (rules (PolicyEngine_init [rule_a, rule_b])) \<and>
   evaluate (PolicyEngine_init [rule_a, rule_b]) (VDict [(''amount'', VInt 3)]) =
     Inr \<lparr>decision = VStr ''allow'', rule = VNone, matched_rules = [],
          trace = [(VStr ''b'', False), (VStr ''a'', False)]\<rparr>"
proof -
  have h1: "list_all (\<lambda>r. is_str (name r)) (rules (PolicyEngine_init [rule_a, rule_b]))"
    by (simp add: PolicyEngine_init_def rule_a_def rule_b_def)
  have h2: "list_all (\<lambda>r. eval (root r) (VDict [(''amount'', VInt 3)]) = Inr False)
     (rules (PolicyEngine_init [rule_a, rule_b]))"
    by (simp add: PolicyEngine_init_def rule_a_def rule_b_def Condition_eval_def py_gt_def)
  have "sort_key order_key (rules (PolicyEngine_init [rule_a, rule_b])) = [rule_b, rule_a]"
    by (simp add: PolicyEngine_init_def rule_a_def rule_b_def order_key_def)
  with no_match_allows [OF h1 h2] h1 h2 show ?thesis
    by (simp add: rule_a_def rule_b_def)
qed

lemma well_typed_names: "list_all well_typed rs \<Longrightarrow> list_all (\<lambda>r. is_str (name r)) rs"
  by (simp add: list_all_iff well_typed_def)

lemma py_max_matched:
  assumes typed: "list_all well_typed rs"
    and some: "filter (matches tx) (sort_key order_key rs) \<noteq> []"
  shows "\<exists>w pre post.
      py_max (action_rank (PolicyEngine_init rs)) (filter (matches tx) (sort_key order_key rs)) = Inr w \<and>
      filter (matches tx) (sort_key order_key rs) = pre @ w # post \<and>
      (\<forall>x\<in>set pre. severity x < severity w) \<and> (\<forall>x\<in>set post. severity x \<le> severity w)"
proof -
  have "\<forall>x\<in>set (filter (matches tx) (sort_key order_key rs)).
      max_key (action_rank (PolicyEngine_init rs)) x = Inr (severity x)"
    using typed by (auto simp: list_all_iff well_typed_def max_key_severity)
  from py_max_first_maximum [OF this some] show ?thesis .
qed

text \<open>
  C6. For every well-typed rule set and every transaction on which no condition raises,
  \<^verbatim>\<open>evaluate\<close> returns, and its trace has exactly one entry per rule, the rule's name
  with whether the rule matched, in the order of the rules sorted by descending priority
  and ascending name (a permutation of the rule set); its length is the number of rules.
\<close>

theorem trace_one_entry_per_rule:
  assumes typed: "list_all well_typed rs"
    and quiet: "list_all (\<lambda>r. \<not> raises tx r) rs"
  shows "\<exists>res. evaluate (PolicyEngine_init rs) tx = Inr res \<and>
      trace res = map (\<lambda>r. (name r, matches tx r)) (sort_key order_key rs) \<and>
      mset (sort_key order_key rs) = mset rs \<and>
      sorted_wrt precedes (sort_key order_key rs) \<and>
      length (trace res) = length rs"
proof -
  have rs: "rules (PolicyEngine_init rs) = rs" by (simp add: PolicyEngine_init_def)
  have names: "list_all (\<lambda>r. is_str (name r)) (rules (PolicyEngine_init rs))"
    using typed by (simp add: rs well_typed_names)
  have quiet': "list_all (\<lambda>r. \<not> raises tx r) (rules (PolicyEngine_init rs))"
    using quiet by (simp add: rs)
  note ev = evaluate_ordered [OF names quiet', unfolded rs]
  have perm: "mset (sort_key order_key rs) = mset rs" by simp
  show ?thesis
  proof (cases "filter (matches tx) (sort_key order_key rs) = []")
    case True
    then show ?thesis using ev perm sorted_wrt_precedes [of rs] by simp
  next
    case False
    from py_max_matched [OF typed False] obtain w where
      "py_max (action_rank (PolicyEngine_init rs)) (filter (matches tx) (sort_key order_key rs)) = Inr w"
      by blast
    then show ?thesis using ev False perm sorted_wrt_precedes [of rs] by simp
  qed
qed

theorem trace_one_entry_per_rule_witness:
  "list_all well_typed [rule_a, rule_b] \<and>
   list_all (\<lambda>r. \<not> raises (VDict [(''amount'', VInt 30)]) r) [rule_a, rule_b] \<and>
   (\<exists>res. evaluate (PolicyEngine_init [rule_a, rule_b]) (VDict [(''amount'', VInt 30)]) = Inr res \<and>
      trace res = [(VStr ''b'', False), (VStr ''a'', True)] \<and>
      length (trace res) = length [rule_a, rule_b])"
proof -
  have h1: "list_all well_typed [rule_a, rule_b]"
    by (simp add: well_typed_def valid_action_def rule_a_def rule_b_def)
  have h2: "list_all (\<lambda>r. \<not> raises (VDict [(''amount'', VInt 30)]) r) [rule_a, rule_b]"
    by (simp add: raises_def rule_a_def rule_b_def Condition_eval_def py_gt_def)
  have order: "sort_key order_key [rule_a, rule_b] = [rule_b, rule_a]"
    by (simp add: rule_a_def rule_b_def order_key_def)
  have m: "matches (VDict [(''amount'', VInt 30)]) rule_a" "\<not> matches (VDict [(''amount'', VInt 30)]) rule_b"
    by (simp_all add: matches_def rule_a_def rule_b_def Condition_eval_def py_gt_def)
  from trace_one_entry_per_rule [OF h1 h2] obtain res where
    "evaluate (PolicyEngine_init [rule_a, rule_b]) (VDict [(''amount'', VInt 30)]) = Inr res"
    "trace res = map (\<lambda>r. (name r, matches (VDict [(''amount'', VInt 30)]) r)) (sort_key order_key [rule_a, rule_b])"
    "length (trace res) = length [rule_a, rule_b]"
    by blast
  with order m have "evaluate (PolicyEngine_init [rule_a, rule_b]) (VDict [(''amount'', VInt 30)]) = Inr res \<and>
      trace res = [(VStr ''b'', False), (VStr ''a'', True)] \<and>
      length (trace res) = length [rule_a, rule_b]"
    by (simp add: rule_a_def rule_b_def)
  with h1 h2 show ?thesis by blast
qed

lemma severity_block:
  "severity m \<le> severity w \<Longrightarrow> action m = VStr ''block'' \<Longrightarrow> valid_action (action w) \<Longrightarrow>
   action w = VStr ''block''"
  by (auto simp: severity_def severity_rank_def valid_action_def less_eq_prod_def split: if_splits)

lemma severity_same_action:
  "severity m \<le> severity w \<Longrightarrow> action m = action w \<Longrightarrow> priority m \<le> priority w"
  by (auto simp: severity_def less_eq_prod_def)

text \<open>
  C4. For every well-typed rule set and every transaction on which no condition raises
  and at least one rule matches, \<^verbatim>\<open>evaluate\<close> returns, and the rule it chooses is the
  first, in the order by descending priority and ascending name, of the matched rules
  whose pair of severity rank (block 2, flag 1, allow 0) and priority is greatest: every
  matched rule before it has a strictly smaller pair, every one after it a pair not
  greater. The decision is its action and the rule returned is its name. In particular,
  when some matched rule blocks, the decision is \<^verbatim>\<open>block\<close> whatever the priorities, and
  among matched rules of the winner's action none has a higher priority. Unique names
  are not needed for this.
\<close>

theorem winner_is_first_maximum:
  assumes typed: "list_all well_typed rs"
    and quiet: "list_all (\<lambda>r. \<not> raises tx r) rs"
    and some: "list_ex (matches tx) rs"
  shows "\<exists>res w pre post.
      evaluate (PolicyEngine_init rs) tx = Inr res \<and>
      filter (matches tx) (sort_key order_key rs) = pre @ w # post \<and>
      (\<forall>m\<in>set pre. severity m < severity w) \<and>
      (\<forall>m\<in>set post. severity m \<le> severity w) \<and>
      rule res = name w \<and> decision res = action w \<and>
      matched_rules res = map name (pre @ w # post) \<and>
      ((\<exists>m\<in>set rs. matches tx m \<and> action m = VStr ''block'') \<longrightarrow> decision res = VStr ''block'') \<and>
      (\<forall>m\<in>set rs. matches tx m \<and> action m = action w \<longrightarrow> priority m \<le> priority w)"
proof -
  have rs: "rules (PolicyEngine_init rs) = rs" by (simp add: PolicyEngine_init_def)
  have names: "list_all (\<lambda>r. is_str (name r)) (rules (PolicyEngine_init rs))"
    using typed by (simp add: rs well_typed_names)
  have quiet': "list_all (\<lambda>r. \<not> raises tx r) (rules (PolicyEngine_init rs))"
    using quiet by (simp add: rs)
  note ev = evaluate_ordered [OF names quiet', unfolded rs]
  from some have ne: "filter (matches tx) (sort_key order_key rs) \<noteq> []"
    by (auto simp: list_ex_iff filter_empty_conv)
  from py_max_matched [OF typed ne] obtain w pre post where
    w: "py_max (action_rank (PolicyEngine_init rs)) (filter (matches tx) (sort_key order_key rs)) = Inr w"
      "filter (matches tx) (sort_key order_key rs) = pre @ w # post"
      "\<forall>x\<in>set pre. severity x < severity w" "\<forall>x\<in>set post. severity x \<le> severity w"
    by blast
  let ?res = "\<lparr>decision = action w, rule = name w,
      matched_rules = map name (filter (matches tx) (sort_key order_key rs)),
      trace = map (\<lambda>r. (name r, matches tx r)) (sort_key order_key rs)\<rparr>"
  have res: "evaluate (PolicyEngine_init rs) tx = Inr ?res"
    using ev ne w(1) by simp
  have matched: "set (pre @ w # post) = {m \<in> set rs. matches tx m}"
    using w(2) [symmetric] by simp
  then have win: "w \<in> set rs" by auto
  have le: "severity m \<le> severity w" if "m \<in> set rs" "matches tx m" for m
  proof -
    from that matched have "m \<in> set pre \<or> m = w \<or> m \<in> set post" by auto
    with w(3,4) show ?thesis by (auto simp: less_imp_le)
  qed
  have valid: "valid_action (action w)"
    using typed win by (auto simp: list_all_iff well_typed_def)
  have block: "(\<exists>m\<in>set rs. matches tx m \<and> action m = VStr ''block'') \<longrightarrow> action w = VStr ''block''"
    using le valid by (auto dest: severity_block)
  have prio: "\<forall>m\<in>set rs. matches tx m \<and> action m = action w \<longrightarrow> priority m \<le> priority w"
    using le by (auto dest: severity_same_action)
  have "evaluate (PolicyEngine_init rs) tx = Inr ?res \<and>
      filter (matches tx) (sort_key order_key rs) = pre @ w # post \<and>
      (\<forall>m\<in>set pre. severity m < severity w) \<and>
      (\<forall>m\<in>set post. severity m \<le> severity w) \<and>
      rule ?res = name w \<and> decision ?res = action w \<and>
      matched_rules ?res = map name (pre @ w # post) \<and>
      ((\<exists>m\<in>set rs. matches tx m \<and> action m = VStr ''block'') \<longrightarrow> decision ?res = VStr ''block'') \<and>
      (\<forall>m\<in>set rs. matches tx m \<and> action m = action w \<longrightarrow> priority m \<le> priority w)"
    using res w(2,3,4) block prio by simp
  then show ?thesis by blast
qed

lemma matched_subset:
  "w \<in> set (filter (matches tx) (sort_key order_key rs)) \<Longrightarrow> w \<in> set rs"
  by simp

theorem winner_is_first_maximum_witness:
  "list_all well_typed [flag_50, block_1] \<and>
   list_all (\<lambda>r. \<not> raises (VDict []) r) [flag_50, block_1] \<and>
   list_ex (matches (VDict [])) [flag_50, block_1] \<and>
   (\<exists>res. evaluate (PolicyEngine_init [flag_50, block_1]) (VDict []) = Inr res \<and>
      decision res = VStr ''block'' \<and> rule res = VStr ''b'') \<and>
   list_all well_typed [flag_5, flag_10] \<and>
   list_all (\<lambda>r. \<not> raises (VDict []) r) [flag_5, flag_10] \<and>
   list_ex (matches (VDict [])) [flag_5, flag_10] \<and>
   (\<exists>res. evaluate (PolicyEngine_init [flag_5, flag_10]) (VDict []) = Inr res \<and>
      decision res = VStr ''flag'' \<and> rule res = VStr ''ten'')"
proof -
  have a1: "list_all well_typed [flag_50, block_1]"
    by (simp add: well_typed_def valid_action_def flag_50_def block_1_def)
  have a2: "list_all (\<lambda>r. \<not> raises (VDict []) r) [flag_50, block_1]"
    by (simp add: raises_def flag_50_def block_1_def always_true_def)
  have a3: "list_ex (matches (VDict [])) [flag_50, block_1]"
    by (simp add: matches_def flag_50_def always_true_def)
  have b1: "list_all well_typed [flag_5, flag_10]"
    by (simp add: well_typed_def valid_action_def flag_5_def flag_10_def)
  have b2: "list_all (\<lambda>r. \<not> raises (VDict []) r) [flag_5, flag_10]"
    by (simp add: raises_def flag_5_def flag_10_def always_true_def)
  have b3: "list_ex (matches (VDict [])) [flag_5, flag_10]"
    by (simp add: matches_def flag_5_def always_true_def)
  have first: "\<exists>res. evaluate (PolicyEngine_init [flag_50, block_1]) (VDict []) = Inr res \<and>
      decision res = VStr ''block'' \<and> rule res = VStr ''b''"
  proof -
    from winner_is_first_maximum [OF a1 a2 a3] obtain res w pre post where
      r: "evaluate (PolicyEngine_init [flag_50, block_1]) (VDict []) = Inr res"
        "filter (matches (VDict [])) (sort_key order_key [flag_50, block_1]) = pre @ w # post"
        "rule res = name w" "decision res = action w"
        "(\<exists>m\<in>set [flag_50, block_1]. matches (VDict []) m \<and> action m = VStr ''block'') \<longrightarrow>
           decision res = VStr ''block''"
      by blast
    have "matches (VDict []) block_1 \<and> action block_1 = VStr ''block''"
      by (simp add: matches_def block_1_def always_true_def)
    with r(5) have d: "decision res = VStr ''block''" by simp
    have "w \<in> set (filter (matches (VDict [])) (sort_key order_key [flag_50, block_1]))"
      using r(2) by simp
    then have "w \<in> set [flag_50, block_1]" by (rule matched_subset)
    then have "w = flag_50 \<or> w = block_1" by simp
    with d r(4) have "w = block_1" by (auto simp: flag_50_def)
    with r(3) have "rule res = VStr ''b''" by (simp add: block_1_def)
    with r(1) d show ?thesis by blast
  qed
  have second: "\<exists>res. evaluate (PolicyEngine_init [flag_5, flag_10]) (VDict []) = Inr res \<and>
      decision res = VStr ''flag'' \<and> rule res = VStr ''ten''"
  proof -
    from winner_is_first_maximum [OF b1 b2 b3] obtain res w pre post where
      r: "evaluate (PolicyEngine_init [flag_5, flag_10]) (VDict []) = Inr res"
        "filter (matches (VDict [])) (sort_key order_key [flag_5, flag_10]) = pre @ w # post"
        "rule res = name w" "decision res = action w"
        "\<forall>m\<in>set [flag_5, flag_10]. matches (VDict []) m \<and> action m = action w \<longrightarrow>
           priority m \<le> priority w"
      by blast
    have "w \<in> set (filter (matches (VDict [])) (sort_key order_key [flag_5, flag_10]))"
      using r(2) by simp
    then have "w \<in> set [flag_5, flag_10]" by (rule matched_subset)
    then have w: "w = flag_5 \<or> w = flag_10" by simp
    then have act: "action w = VStr ''flag''" by (auto simp: flag_5_def flag_10_def)
    have "matches (VDict []) flag_10 \<and> action flag_10 = action w"
      using act by (simp add: matches_def flag_10_def always_true_def)
    with r(5) have "priority flag_10 \<le> priority w" by simp
    with w have "w = flag_10" by (auto simp: flag_5_def flag_10_def)
    with r(1,3,4) act show ?thesis by (auto simp: flag_10_def)
  qed
  from a1 a2 a3 first b1 b2 b3 second show ?thesis by blast
qed

end
